theory Spec2Isabelle
  imports
    Main
    "HOL-Library.Sublist"
    "HOL-Library.Char_ord"
    "HOL-Library.List_Lexorder"
    "HOL-Library.Multiset"
begin

section \<open>Strings and paths\<close>

text \<open>
  Names, relative paths and configuration entries are Python \<open>str\<close> values; they are
  modelled as \<^typ>\<open>string\<close>. File contents are byte strings, also \<^typ>\<open>string\<close>
  (one \<^typ>\<open>char\<close> per byte). Decoded text is a list of Unicode code points.
  Paths follow \<open>pathlib.PurePosixPath\<close>: the separator is \<open>/\<close>, comparison is
  case-sensitive, and a backslash is an ordinary character of a name.
\<close>

type_synonym bytes = string
type_synonym ustr = "nat list"

definition ustr_of :: "string \<Rightarrow> ustr" where
  "ustr_of s = map of_char s"

text \<open>\<open>s.startswith(p)\<close> and \<open>p in s\<close> on strings.\<close>

definition startswith :: "'a list \<Rightarrow> 'a list \<Rightarrow> bool" where
  "startswith s p = prefix p s"

fun contains :: "'a list \<Rightarrow> 'a list \<Rightarrow> bool" where
  "contains p [] = (p = [])"
| "contains p (c # cs) = (prefix p (c # cs) \<or> contains p cs)"

definition endswith :: "'a list \<Rightarrow> 'a list \<Rightarrow> bool" where
  "endswith s p = prefix (rev p) (rev s)"

text \<open>\<open>s.split(sep)\<close> for a one-character separator.\<close>

fun split_on :: "char \<Rightarrow> string \<Rightarrow> string list" where
  "split_on sep [] = [] # []"
| "split_on sep (c # cs) =
     (if c = sep then [] # split_on sep cs
      else (case split_on sep cs of
              [] \<Rightarrow> [c] # []
            | w # ws \<Rightarrow> (c # w) # ws))"

text \<open>\<open>sep.join(parts)\<close>.\<close>

fun join :: "string \<Rightarrow> string list \<Rightarrow> string" where
  "join sep [] = []"
| "join sep [p] = p"
| "join sep (p # q # ps) = p @ sep @ join sep (q # ps)"

text \<open>
  A pure path is its root (\<open>''''\<close>, \<open>/\<close> or \<open>//\<close>) and its segments.
  \<open>splitroot\<close> and \<open>parse_path\<close> follow \<open>posixpath.splitroot\<close> and the parsing of
  \<open>PurePosixPath\<close>: empty segments and \<open>.\<close> segments are dropped.
\<close>

type_synonym pure_path = "string \<times> string list"

definition splitroot :: "string \<Rightarrow> string \<times> string" where
  "splitroot p =
     (if take 1 p \<noteq> ''/'' then ([], p)
      else if take 1 (drop 1 p) \<noteq> ''/'' \<or> take 1 (drop 2 p) = ''/'' then (''/'', drop 1 p)
      else (take 2 p, drop 2 p))"

definition parse_path :: "string \<Rightarrow> pure_path" where
  "parse_path p =
     (let (root, rel) = splitroot p
      in (root, filter (\<lambda>x. x \<noteq> [] \<and> x \<noteq> ''.'') (split_on CHR ''/'' rel)))"

text \<open>\<open>str(path)\<close>.\<close>

definition path_str :: "pure_path \<Rightarrow> string" where
  "path_str pp =
     (case pp of (root, tail) \<Rightarrow>
        if root \<noteq> [] then root @ join ''/'' tail
        else if tail = [] then ''.'' else join ''/'' tail)"

text \<open>A path relative to the source root, as \<open>relative_to\<close> returns it: no root, the segments.\<close>

definition rel_path :: "string list \<Rightarrow> pure_path" where
  "rel_path parts = ([], parts)"

text \<open>\<open>path.name\<close>: the final segment, empty for the path \<open>.\<close>.\<close>

definition path_name :: "string list \<Rightarrow> string" where
  "path_name parts = (if parts = [] then [] else last parts)"

text \<open>Every backslash is replaced by a slash.\<close>

definition replace_backslash :: "string \<Rightarrow> string" where
  "replace_backslash s = map (\<lambda>c. if c = CHR 0x5C then CHR ''/'' else c) s"

text \<open>\<open>normalize_path\<close> on a string, and on a path object (where \<open>Path(p)\<close> is \<open>p\<close>).\<close>

definition normalize_path :: "string \<Rightarrow> string" where
  "normalize_path path_s = replace_backslash (path_str (parse_path path_s))"

definition normalize_rel :: "string list \<Rightarrow> string" where
  "normalize_rel parts = replace_backslash (path_str (rel_path parts))"

text \<open>
  \<open>path.suffix\<close>: the part of the name from its last dot on, when that dot is neither
  the first nor the last character of the name.
\<close>

fun rfind :: "char \<Rightarrow> string \<Rightarrow> nat option" where
  "rfind c [] = None"
| "rfind c (x # xs) =
     (case rfind c xs of
        Some i \<Rightarrow> Some (Suc i)
      | None \<Rightarrow> if x = c then Some 0 else None)"

definition suffix_of :: "string \<Rightarrow> string" where
  "suffix_of name =
     (case rfind CHR ''.'' name of
        None \<Rightarrow> []
      | Some i \<Rightarrow> if 0 < i \<and> i + 1 < length name then drop i name else [])"

text \<open>\<open>s.lower()\<close>; names are taken to be ASCII, where it changes the letters A to Z.\<close>

definition lower_char :: "char \<Rightarrow> char" where
  "lower_char c =
     (let n = (of_char c :: nat)
      in if 65 \<le> n \<and> n \<le> 90 then char_of (n + 32) else c)"

definition lower :: "string \<Rightarrow> string" where
  "lower s = map lower_char s"

section \<open>Configuration\<close>

definition DEFAULT_TEXT_EXTENSIONS :: "string set" where
  "DEFAULT_TEXT_EXTENSIONS =
    {''.php'', ''.py'', ''.js'', ''.jsx'', ''.ts'', ''.tsx'', ''.html'', ''.css'', ''.scss'',
     ''.json'', ''.xml'', ''.yml'', ''.yaml'', ''.md'', ''.txt'', ''.sql'', ''.sh'', ''.bash'',
     ''.java'', ''.c'', ''.cpp'', ''.h'', ''.hpp'', ''.cs'', ''.go'', ''.rs'', ''.rb'', ''.vue'',
     ''.svelte'', ''.astro'', ''.env'', ''.gitignore'', ''.htaccess'', ''.conf'', ''.ini'',
     ''.sass'', ''.less'', ''.lock'', ''.toml'', ''.dockerfile'', ''.editorconfig''}"

definition COMMON_SKIP_FOLDERS :: "string set" where
  "COMMON_SKIP_FOLDERS =
    {''node_modules'', ''.git'', ''.svn'', ''__pycache__'', ''vendor'',
     ''.idea'', ''.vscode'', ''dist'', ''build'', ''.next'', ''.cache'',
     ''coverage'', ''.pytest_cache'', ''.mypy_cache'', ''venv'', ''env'',
     ''codemapper''}"

text \<open>
  The configuration dictionary: every key is optional. \<open>CodeMapGenerator.__init__\<close>
  fills in the defaults and adds the script's own name to \<open>except_files\<close>; the flag
  \<open>is_frozen\<close> is \<open>sys.frozen\<close>.
\<close>

record raw_config =
  cfg_text_extensions :: "string list option"
  cfg_src :: "string list option"
  cfg_folders :: "string list option"
  cfg_files :: "string list option"
  cfg_except_folders :: "string list option"
  cfg_except_files :: "string list option"
  cfg_max_file_size_mb :: "int option"

record generator =
  text_extensions :: "string set"
  src_folders :: "string list"
  folders :: "string list"
  files :: "string list"
  except_folders :: "string set"
  except_files :: "string set"
  max_file_size :: int

definition script_name :: "bool \<Rightarrow> string" where
  "script_name is_frozen = (if is_frozen then ''codemapper.exe'' else ''codemapper.py'')"

definition get_or :: "'a option \<Rightarrow> 'a \<Rightarrow> 'a" where
  "get_or v d = (case v of None \<Rightarrow> d | Some x \<Rightarrow> x)"

definition init :: "bool \<Rightarrow> raw_config \<Rightarrow> generator" where
  "init is_frozen config =
     \<lparr> text_extensions =
         (case cfg_text_extensions config of
            None \<Rightarrow> DEFAULT_TEXT_EXTENSIONS
          | Some es \<Rightarrow> set es),
       src_folders = get_or (cfg_src config) [''.''],
       folders = get_or (cfg_folders config) [],
       files = get_or (cfg_files config) [],
       except_folders = set (get_or (cfg_except_folders config) []),
       except_files = insert (script_name is_frozen) (set (get_or (cfg_except_files config) [])),
       max_file_size = get_or (cfg_max_file_size_mb config) 10 * 1024 * 1024 \<rparr>"

definition empty_config :: raw_config where
  "empty_config =
     \<lparr> cfg_text_extensions = None, cfg_src = None, cfg_folders = None, cfg_files = None,
       cfg_except_folders = None, cfg_except_files = None, cfg_max_file_size_mb = None \<rparr>"

section \<open>Folder and file decisions\<close>

text \<open>
  \<open>should_process_folder\<close>, on the segments of the folder's path relative to the source
  root (\<open>[]\<close> for the root itself).
\<close>

definition should_process_folder :: "generator \<Rightarrow> string list \<Rightarrow> bool" where
  "should_process_folder g parts =
     (let rel_str = normalize_rel parts;
          folder_name = path_name parts
      in if ''codemapper'' \<in> set parts \<or> contains ''codemapper/'' rel_str then False
         else if \<exists>f \<in> except_folders g. startswith rel_str (normalize_path f) then False
         else if \<exists>skip \<in> COMMON_SKIP_FOLDERS. skip \<in> set parts then
           (if folders g = [] then False
            else list_ex (\<lambda>f. startswith rel_str (normalize_path f)) (folders g))
         else if folders g \<noteq> [] then
           list_ex (\<lambda>f. startswith rel_str (normalize_path f) \<or>
                         rel_str = normalize_path f \<or>
                         folder_name \<in> set (folders g)) (folders g)
         else True)"

text \<open>
  A file as the walk sees it: what \<open>stat().st_size\<close> returns (\<open>None\<close> when \<open>stat\<close>
  raises), and what opening and reading it gives: the bytes, or the message of the
  \<open>OSError\<close>.
\<close>

record file_entry =
  st_size :: "int option"
  data :: "string + bytes"

text \<open>
  \<open>should_process_file\<close>, on the segments of the directory relative to the source root,
  the file's name and the file.
\<close>

definition should_process_file :: "generator \<Rightarrow> string list \<Rightarrow> string \<Rightarrow> file_entry \<Rightarrow> bool" where
  "should_process_file g dir_parts filename f =
     (let rel = rel_path (dir_parts @ [filename]);
          rel_str = replace_backslash (path_str rel)
      in if contains ''codemapper/'' rel_str \<or> contains (''codemapper'' @ [CHR 0x5C]) (path_str rel)
         then False
         else if filename \<in> except_files g \<or> rel_str \<in> except_files g then False
         else if files g \<noteq> [] then filename \<in> set (files g) \<or> rel_str \<in> set (files g)
         else (case st_size f of
                 Some sz \<Rightarrow> if sz > max_file_size g then False else True
               | None \<Rightarrow> True))"

definition is_text_file :: "generator \<Rightarrow> string \<Rightarrow> bool" where
  "is_text_file g filename = (lower (suffix_of filename) \<in> text_extensions g)"

section \<open>Reading a file\<close>

text \<open>
  The strict UTF-8 decoder: shortest forms only, no surrogates, nothing above
  \<open>U+10FFFF\<close>. \<open>None\<close> is \<open>UnicodeDecodeError\<close>.
\<close>

definition is_cont :: "nat \<Rightarrow> bool" where
  "is_cont b = (128 \<le> b \<and> b \<le> 191)"

fun utf8_decode :: "nat list \<Rightarrow> ustr option" where
  "utf8_decode [] = Some []"
| "utf8_decode (b # bs) =
     (if b < 128 then map_option ((#) b) (utf8_decode bs)
      else if 194 \<le> b \<and> b \<le> 223 then
        (case bs of
           c1 # r \<Rightarrow>
             if is_cont c1
             then map_option ((#) ((b - 192) * 64 + (c1 - 128))) (utf8_decode r)
             else None
         | _ \<Rightarrow> None)
      else if 224 \<le> b \<and> b \<le> 239 then
        (case bs of
           c1 # c2 # r \<Rightarrow>
             if (if b = 224 then 160 else 128) \<le> c1 \<and> c1 \<le> (if b = 237 then 159 else 191)
                \<and> is_cont c2
             then map_option ((#) ((b - 224) * 4096 + (c1 - 128) * 64 + (c2 - 128)))
                    (utf8_decode r)
             else None
         | _ \<Rightarrow> None)
      else if 240 \<le> b \<and> b \<le> 244 then
        (case bs of
           c1 # c2 # c3 # r \<Rightarrow>
             if (if b = 240 then 144 else 128) \<le> c1 \<and> c1 \<le> (if b = 244 then 143 else 191)
                \<and> is_cont c2 \<and> is_cont c3
             then map_option
                    ((#) ((b - 240) * 262144 + (c1 - 128) * 4096 + (c2 - 128) * 64 + (c3 - 128)))
                    (utf8_decode r)
             else None
         | _ \<Rightarrow> None)
      else None)"

definition latin1_decode :: "nat list \<Rightarrow> ustr" where
  "latin1_decode bs = bs"

text \<open>
  Text mode with the default \<open>newline=None\<close>: a carriage return followed by a line
  feed, and a lone carriage return, are read as one line feed.
\<close>

fun universal_newlines :: "ustr \<Rightarrow> ustr" where
  "universal_newlines [] = []"
| "universal_newlines [c] = [if c = 13 then 10 else c]"
| "universal_newlines (c # d # cs) =
     (if c = 13 \<and> d = 10 then 10 # universal_newlines cs
      else (if c = 13 then 10 else c) # universal_newlines (d # cs))"

datatype read_error = UnicodeDecodeError | OSError string

text \<open>\<open>open(file_path, 'r', encoding=...)\<close> followed by \<open>f.read()\<close>.\<close>

definition read_utf8 :: "file_entry \<Rightarrow> read_error + ustr" where
  "read_utf8 f =
     (case data f of
        Inl msg \<Rightarrow> Inl (OSError msg)
      | Inr bs \<Rightarrow>
          (case utf8_decode (map of_char bs) of
             None \<Rightarrow> Inl UnicodeDecodeError
           | Some t \<Rightarrow> Inr (universal_newlines t)))"

definition read_latin1 :: "file_entry \<Rightarrow> string + ustr" where
  "read_latin1 f =
     (case data f of
        Inl msg \<Rightarrow> Inl msg
      | Inr bs \<Rightarrow> Inr (universal_newlines (latin1_decode (map of_char bs))))"

record stats =
  text_files :: nat
  binary_files :: nat
  skipped_files :: nat
  errors :: nat
  total_size :: int

definition error_marker :: "string \<Rightarrow> ustr" where
  "error_marker msg = ustr_of (''[Error: '' @ msg @ '']'')"

definition read_file_safely :: "file_entry \<Rightarrow> stats \<Rightarrow> ustr \<times> stats" where
  "read_file_safely f st =
     (case read_utf8 f of
        Inr t \<Rightarrow> (t, st)
      | Inl UnicodeDecodeError \<Rightarrow>
          (case read_latin1 f of
             Inr t \<Rightarrow> (t, st)
           | Inl msg \<Rightarrow> (error_marker msg, st\<lparr>errors := errors st + 1\<rparr>))
      | Inl (OSError msg) \<Rightarrow> (error_marker msg, st\<lparr>errors := errors st + 1\<rparr>))"

section \<open>Emitting records\<close>

text \<open>
  What is written for one file: its path marker alone, or the marker, the text between
  the marker and the closing line, and the closing line. \<open>render_record\<close> is the text
  of the \<open>out.write\<close> calls.
\<close>

datatype record_kind = TextContent ustr | BinaryMarker

record output_record =
  relative_path :: string
  kind :: record_kind

definition render_record :: "output_record \<Rightarrow> ustr" where
  "render_record r =
     ustr_of (''--'' @ relative_path r) @ [10] @
     (case kind r of
        TextContent c \<Rightarrow> c @ ustr_of ''----'' @ [10]
      | BinaryMarker \<Rightarrow> [])"

record run_state =
  out :: "output_record list"
  stats :: stats

text \<open>The body of the loop over the files of a directory.\<close>

definition process_file ::
  "generator \<Rightarrow> string list \<Rightarrow> string \<Rightarrow> file_entry \<Rightarrow> run_state \<Rightarrow> run_state" where
  "process_file g dir_parts filename f s =
     (let display_path = normalize_rel (dir_parts @ [filename])
      in if \<not> should_process_file g dir_parts filename f
         then s\<lparr>stats := (stats s)\<lparr>skipped_files := skipped_files (stats s) + 1\<rparr>\<rparr>
         else
           let st1 = (case st_size f of
                        Some file_size \<Rightarrow> (stats s)\<lparr>total_size := total_size (stats s) + file_size\<rparr>
                      | None \<Rightarrow> stats s)
           in if is_text_file g filename then
                let (content, st2) = read_file_safely f st1;
                    written = content @ (if endswith content [10] then [] else [10])
                in \<lparr> out = out s @ [\<lparr>relative_path = display_path, kind = TextContent written\<rparr>],
                     stats = st2\<lparr>text_files := text_files st2 + 1\<rparr> \<rparr>
              else
                \<lparr> out = out s @ [\<lparr>relative_path = display_path, kind = BinaryMarker\<rparr>],
                  stats = st1\<lparr>binary_files := binary_files st1 + 1\<rparr> \<rparr>)"

section \<open>The walk\<close>

text \<open>
  A directory as \<open>os.walk\<close> lists it: its files and its subdirectories, each in the
  order of the listing. A symbolic link to a directory is listed among the
  subdirectories but never entered, so it contributes nothing and is left out; the tree
  does not change during the run, and the output file lies outside the scanned folders. \<open>os_walk keep root d\<close> is the sequence of \<open>(root, files)\<close> that
  \<open>os.walk\<close> yields top-down when the loop body replaces \<open>dirs\<close> by the entries that
  \<open>keep\<close> accepts before the walk goes on: a directory dropped from \<open>dirs\<close> is never
  entered.
\<close>

datatype dir = Dir (dir_files: "(string \<times> file_entry) list") (dir_subdirs: "(string \<times> dir) list")

fun os_walk ::
  "(string list \<Rightarrow> bool) \<Rightarrow> string list \<Rightarrow> dir \<Rightarrow> (string list \<times> (string \<times> file_entry) list) list" where
  "os_walk keep root (Dir fs ds) =
     (root, fs) #
     concat (map (\<lambda>(d, sub). os_walk keep (root @ [d]) sub)
                 (filter (\<lambda>(d, sub). keep (root @ [d])) ds))"

text \<open>
  The files the loop body runs on, in order: for every yielded directory that
  \<open>should_process_folder\<close> accepts, its files sorted by name.
\<close>

definition walk_files :: "generator \<Rightarrow> dir \<Rightarrow> (string list \<times> string \<times> file_entry) list" where
  "walk_files g src_dir =
     concat (map (\<lambda>(root, fs).
                    if \<not> should_process_folder g root then []
                    else map (\<lambda>(name, f). (root, name, f)) (sort_key fst fs))
                 (os_walk (should_process_folder g) [] src_dir))"

text \<open>
  What a source folder resolves to. For a folder that is missing or is not a directory
  the run prints a warning and goes on with the next one; printing is not modelled.
\<close>

datatype source = Missing | NotADirectory | Directory dir

type_synonym filesystem = "string \<Rightarrow> source"

definition scan_source :: "generator \<Rightarrow> filesystem \<Rightarrow> run_state \<Rightarrow> string \<Rightarrow> run_state" where
  "scan_source g fs s src =
     (case fs src of
        Missing \<Rightarrow> s
      | NotADirectory \<Rightarrow> s
      | Directory d \<Rightarrow>
          foldl (\<lambda>s' (root, name, f). process_file g root name f s') s (walk_files g d))"

definition initial_stats :: stats where
  "initial_stats =
     \<lparr> text_files = 0, binary_files = 0, skipped_files = 0, errors = 0, total_size = 0 \<rparr>"

definition generate_map :: "generator \<Rightarrow> filesystem \<Rightarrow> run_state" where
  "generate_map g fs = foldl (scan_source g fs) \<lparr> out = [], stats = initial_stats \<rparr> (src_folders g)"

text \<open>
  The text of the output file: the line with the time of the run (\<open>now\<close> is the
  formatted time), the records, and the summary.
\<close>

function show_nat :: "nat \<Rightarrow> string" where
  "show_nat n =
     (if n < 10 then [char_of (48 + n)]
      else show_nat (n div 10) @ [char_of (48 + n mod 10)])"
  by pat_completeness auto
termination
  by (relation "measure id") auto

definition summary_line :: "stats \<Rightarrow> ustr" where
  "summary_line st =
     ustr_of (''Text:'' @ show_nat (text_files st) @
              '' Binary:'' @ show_nat (binary_files st) @
              '' Skipped:'' @ show_nat (skipped_files st)) @ [10]"

definition header_line :: "string \<Rightarrow> ustr" where
  "header_line now = ustr_of (''MAP: Generated '' @ now) @ [10]"

definition render_body :: "run_state \<Rightarrow> ustr" where
  "render_body s =
     concat (map render_record (out s)) @
     ustr_of ''--SUMMARY'' @ [10] @ summary_line (stats s)"

definition written_output :: "string \<Rightarrow> generator \<Rightarrow> filesystem \<Rightarrow> ustr" where
  "written_output now g fs = header_line now @ render_body (generate_map g fs)"

section \<open>Derived notions used in the statements\<close>

text \<open>
  What a successful read returns for the bytes \<open>bs\<close>: the UTF-8 decoding, or the
  Latin-1 decoding when the bytes are not valid UTF-8, with the newline translation of
  text mode.
\<close>

definition decoded_text :: "bytes \<Rightarrow> ustr" where
  "decoded_text bs =
     universal_newlines
       (case utf8_decode (map of_char bs) of
          Some t \<Rightarrow> t
        | None \<Rightarrow> latin1_decode (map of_char bs))"

text \<open>The content that \<open>read_file_safely\<close> returns, whatever the statistics are.\<close>

definition file_content :: "file_entry \<Rightarrow> ustr" where
  "file_content f = (case data f of Inl msg \<Rightarrow> error_marker msg | Inr bs \<Rightarrow> decoded_text bs)"

text \<open>The content followed by the newline that the loop adds when it is missing.\<close>

definition with_newline :: "ustr \<Rightarrow> ustr" where
  "with_newline c = (if endswith c [10] then c else c @ [10])"

text \<open>The record that the loop appends for a file that the file decision accepts.\<close>

definition record_of :: "generator \<Rightarrow> string list \<Rightarrow> string \<Rightarrow> file_entry \<Rightarrow> output_record" where
  "record_of g dir_parts filename f =
     \<lparr> relative_path = normalize_rel (dir_parts @ [filename]),
       kind = (if is_text_file g filename
               then TextContent (with_newline (file_content f))
               else BinaryMarker) \<rparr>"

text \<open>
  The loop over a sequence of files, and the files the run visits for one source folder.
\<close>

definition run_files ::
  "generator \<Rightarrow> run_state \<Rightarrow> (string list \<times> string \<times> file_entry) list \<Rightarrow> run_state" where
  "run_files g s xs = foldl (\<lambda>s' (root, name, f). process_file g root name f s') s xs"

definition visited_files ::
  "generator \<Rightarrow> filesystem \<Rightarrow> string \<Rightarrow> (string list \<times> string \<times> file_entry) list" where
  "visited_files g fs src = (case fs src of Directory d \<Rightarrow> walk_files g d | _ \<Rightarrow> [])"

text \<open>
  The same tree with another order of the files in the listings: \<open>h\<close> reorders the
  files of every directory. In a tree the files of a directory have different names.
\<close>

fun relist :: "((string \<times> file_entry) list \<Rightarrow> (string \<times> file_entry) list) \<Rightarrow> dir \<Rightarrow> dir" where
  "relist h (Dir fs ds) = Dir (h fs) (map (\<lambda>(d, sub). (d, relist h sub)) ds)"

fun distinct_names :: "dir \<Rightarrow> bool" where
  "distinct_names (Dir fs ds) =
     (distinct (map fst fs) \<and> list_all (\<lambda>(d, sub). distinct_names sub) ds)"

definition relist_fs ::
  "((string \<times> file_entry) list \<Rightarrow> (string \<times> file_entry) list) \<Rightarrow> filesystem \<Rightarrow> filesystem" where
  "relist_fs h fs src =
     (case fs src of
        Directory d \<Rightarrow> Directory (relist h d)
      | Missing \<Rightarrow> Missing
      | NotADirectory \<Rightarrow> NotADirectory)"

text \<open>
  The directories that a tree has at a relative path (one, when the names of a listing
  are different).
\<close>

fun subdirs_at :: "dir \<Rightarrow> string list \<Rightarrow> dir list" where
  "subdirs_at d [] = [d]"
| "subdirs_at (Dir fs ds) (n # ns) =
     concat (map (\<lambda>(m, sub). if m = n then subdirs_at sub ns else []) ds)"

text \<open>A text that ends with a newline and has no second newline before it.\<close>

definition ends_with_exactly_one_newline :: "ustr \<Rightarrow> bool" where
  "ends_with_exactly_one_newline c = (endswith c [10] \<and> \<not> endswith c [10, 10])"



section \<open>Example inputs\<close>

text \<open>
  The tree of the example: \<open>a.txt\<close> with the content \<open>hello\<close>, the binary file
  \<open>b.png\<close>, and \<open>node_modules/x.js\<close>; the listing gives \<open>b.png\<close> first.
\<close>

definition example_root :: dir where
  "example_root =
     Dir [(''b.png'', \<lparr> st_size = Some 4, data = Inr [CHR 0x89, CHR ''P'', CHR ''N'', CHR ''G''] \<rparr>),
          (''a.txt'', \<lparr> st_size = Some 5, data = Inr ''hello'' \<rparr>)]
         [(''node_modules'', Dir [(''x.js'', \<lparr> st_size = Some 2, data = Inr ''1;'' \<rparr>)] [])]"

definition example_fs :: filesystem where
  "example_fs src = (if src = ''.'' then Directory example_root else Missing)"

text \<open>A text file that ends with a blank line.\<close>

definition blank_line_file :: file_entry where
  "blank_line_file = \<lparr> st_size = Some 3, data = Inr [CHR ''x'', CHR 0x0A, CHR 0x0A] \<rparr>"

text \<open>A text file with a Windows line end, and one that is not valid UTF-8.\<close>

definition crlf_file :: file_entry where
  "crlf_file = \<lparr> st_size = Some 3, data = Inr [CHR ''x'', CHR 0x0D, CHR 0x0A] \<rparr>"

definition latin1_file :: file_entry where
  "latin1_file = \<lparr> st_size = Some 2, data = Inr [CHR 0xE9, CHR ''t''] \<rparr>"

definition unreadable_file :: file_entry where
  "unreadable_file = \<lparr> st_size = Some 2, data = Inl ''Permission denied'' \<rparr>"

text \<open>Only \<open>vendor/lib\<close> is asked for, in a tree that has \<open>vendor/lib/x.js\<close>.\<close>

definition x_js :: file_entry where
  "x_js = \<lparr> st_size = Some 2, data = Inr ''1;'' \<rparr>"

definition vendor_lib_generator :: generator where
  "vendor_lib_generator = init False (empty_config\<lparr> cfg_folders := Some [''vendor/lib''] \<rparr>)"

definition vendor_generator :: generator where
  "vendor_generator = init False (empty_config\<lparr> cfg_folders := Some [''vendor''] \<rparr>)"

definition vendor_root :: dir where
  "vendor_root =
     Dir []
         [(''vendor'',
           Dir [] [(''lib'', Dir [(''x.js'', \<lparr> st_size = Some 2, data = Inr ''1;'' \<rparr>)] [])])]"

definition vendor_fs :: filesystem where
  "vendor_fs src = (if src = ''.'' then Directory vendor_root else Missing)"

text \<open>
  The script's name and the folder \<open>codemapper\<close> are both asked for, in a tree that has
  them.
\<close>

definition own_names_config :: raw_config where
  "own_names_config =
     empty_config\<lparr> cfg_folders := Some [''codemapper'', ''src''],
                    cfg_files := Some [''codemapper.py'', ''main.py''] \<rparr>"

definition own_names_root :: dir where
  "own_names_root =
     Dir []
         [(''codemapper'', Dir [(''main.py'', \<lparr> st_size = Some 2, data = Inr ''1;'' \<rparr>)] []),
          (''src'', Dir [(''main.py'', \<lparr> st_size = Some 2, data = Inr ''2;'' \<rparr>),
                         (''codemapper.py'', \<lparr> st_size = Some 2, data = Inr ''3;'' \<rparr>)] [])]"

definition own_names_fs :: filesystem where
  "own_names_fs src = (if src = ''.'' then Directory own_names_root else Missing)"

definition default_generator :: generator where
  "default_generator = init False empty_config"

definition empty_state :: run_state where
  "empty_state = \<lparr> out = [], stats = initial_stats \<rparr>"

definition env_file :: file_entry where
  "env_file = \<lparr> st_size = Some 3, data = Inr ''A=1'' \<rparr>"

text \<open>An excluded folder that is also an included one.\<close>

definition both_lists_generator :: generator where
  "both_lists_generator =
     init False (empty_config\<lparr> cfg_folders := Some [''app''],
                               cfg_except_folders := Some [''app/tests''] \<rparr>)"

text \<open>A file of 11 MiB that is named in \<open>files\<close>, under the default limit of 10 MiB.\<close>

definition only_big_generator :: generator where
  "only_big_generator = init False (empty_config\<lparr> cfg_files := Some [''big.sql''] \<rparr>)"

definition big_file :: file_entry where
  "big_file = \<lparr> st_size = Some (11 * 1024 * 1024), data = Inr ''select 1;'' \<rparr>"

section \<open>Properties of the file decision and of the reader\<close>

lemma rfind_None: "c \<notin> set xs \<Longrightarrow> rfind c xs = None"
  by (induction xs) auto

lemma suffix_of_dotfile: "CHR ''.'' \<notin> set rest \<Longrightarrow> suffix_of (CHR ''.'' # rest) = []"
  by (simp add: suffix_of_def rfind_None)

lemma out_process_file_skip:
  "\<not> should_process_file g d n f \<Longrightarrow> out (process_file g d n f s) = out s"
  by (simp add: process_file_def)

lemma out_process_file_binary:
  "should_process_file g d n f \<Longrightarrow> \<not> is_text_file g n \<Longrightarrow>
   out (process_file g d n f s) =
     out s @ [\<lparr>relative_path = normalize_rel (d @ [n]), kind = BinaryMarker\<rparr>]"
  by (simp add: process_file_def Let_def)

lemma read_file_safely_eq:
  "read_file_safely f st =
     (case data f of
        Inl msg \<Rightarrow> (error_marker msg, st\<lparr>errors := errors st + 1\<rparr>)
      | Inr bs \<Rightarrow> (decoded_text bs, st))"
  by (simp add: read_file_safely_def read_utf8_def read_latin1_def decoded_text_def
           split: sum.splits option.splits read_error.splits)

lemma fst_read_file_safely: "fst (read_file_safely f st) = file_content f"
  by (simp add: read_file_safely_eq file_content_def split: sum.splits)

lemma out_process_file_text:
  "should_process_file g d n f \<Longrightarrow> is_text_file g n \<Longrightarrow>
   out (process_file g d n f s) =
     out s @ [\<lparr>relative_path = normalize_rel (d @ [n]),
               kind = TextContent (with_newline (file_content f))\<rparr>]"
  by (simp add: process_file_def Let_def with_newline_def case_prod_beta fst_read_file_safely)

lemma endswith_with_newline: "endswith (with_newline c) [10]"
  by (simp add: with_newline_def endswith_def)

section \<open>Records of a run\<close>

lemma out_process_file:
  "out (process_file g d n f s) =
     out s @ (if should_process_file g d n f then [record_of g d n f] else [])"
  by (simp add: out_process_file_skip out_process_file_binary out_process_file_text record_of_def)




lemma out_run_files:
  "out (run_files g s xs) =
     out s @ map (\<lambda>(root, name, f). record_of g root name f)
               (filter (\<lambda>(root, name, f). should_process_file g root name f) xs)"
  unfolding run_files_def
  by (induction xs arbitrary: s) (auto simp: out_process_file)


lemma scan_source_run_files:
  "scan_source g fs s src = run_files g s (visited_files g fs src)"
  by (simp add: scan_source_def run_files_def visited_files_def split: source.splits)

lemma run_files_append: "run_files g s (xs @ ys) = run_files g (run_files g s xs) ys"
  by (simp add: run_files_def)

lemma foldl_scan_source:
  "foldl (scan_source g fs) s srcs = run_files g s (concat (map (visited_files g fs) srcs))"
proof (induction srcs arbitrary: s)
  case Nil
  show ?case by (simp add: run_files_def)
next
  case (Cons a srcs)
  have "foldl (scan_source g fs) s (a # srcs) =
          run_files g (scan_source g fs s a) (concat (map (visited_files g fs) srcs))"
    by (simp only: foldl_Cons Cons.IH)
  also have "\<dots> = run_files g s (visited_files g fs a @ concat (map (visited_files g fs) srcs))"
    by (simp only: scan_source_run_files run_files_append)
  finally show ?case by simp
qed

lemma generate_map_run_files:
  "generate_map g fs =
     run_files g \<lparr> out = [], stats = initial_stats \<rparr>
       (concat (map (visited_files g fs) (src_folders g)))"
  by (simp add: generate_map_def foldl_scan_source)


lemma os_walk_prefix:
  "(r, fs) \<in> set (os_walk keep base d) \<Longrightarrow> prefix base r"
proof (induction keep base d arbitrary: r fs rule: os_walk.induct)
  case (1 keep root fs0 ds)
  from "1.prems" consider "r = root"
    | n sub where "(n, sub) \<in> set ds" "keep (root @ [n])"
        "(r, fs) \<in> set (os_walk keep (root @ [n]) sub)"
    by auto
  then show ?case
  proof cases
    case 1
    then show ?thesis by simp
  next
    case 2
    from "1.IH"[of "(n, sub)" n sub r fs] 2 have "prefix (root @ [n]) r" by simp
    then show ?thesis by (rule append_prefixD)
  qed
qed

lemma os_walk_keep:
  "(r, fs) \<in> set (os_walk keep base d) \<Longrightarrow> prefix p r \<Longrightarrow> strict_prefix base p \<Longrightarrow> keep p"
proof (induction keep base d arbitrary: r fs rule: os_walk.induct)
  case (1 keep root fs0 ds)
  from "1.prems"(1) consider "r = root"
    | n sub where "(n, sub) \<in> set ds" "keep (root @ [n])"
        "(r, fs) \<in> set (os_walk keep (root @ [n]) sub)"
    by auto
  then show ?case
  proof cases
    case 1
    with "1.prems"(2,3) show ?thesis
      by (auto simp: strict_prefix_def)
  next
    case 2
    have sub: "prefix (root @ [n]) r"
      using 2(3) by (rule os_walk_prefix)
    from prefix_same_cases[OF "1.prems"(2) sub]
    show ?thesis
    proof
      assume "prefix p (root @ [n])"
      with "1.prems"(3) have "p = root @ [n]"
        by (auto simp: strict_prefix_def)
      with 2(2) show ?thesis by simp
    next
      assume a: "prefix (root @ [n]) p"
      show ?thesis
      proof (cases "p = root @ [n]")
        case True
        with 2(2) show ?thesis by simp
      next
        case False
        with a have "strict_prefix (root @ [n]) p" by (simp add: strict_prefix_def)
        from "1.IH"[of "(n, sub)" n sub r fs] 2 "1.prems"(2) this show ?thesis by simp
      qed
    qed
  qed
qed

lemma walk_files_iff:
  "(root, name, f) \<in> set (walk_files g d) \<longleftrightarrow>
     (\<exists>fs. (root, fs) \<in> set (os_walk (should_process_folder g) [] d) \<and>
           should_process_folder g root \<and> (name, f) \<in> set fs)"
  by (auto simp: walk_files_def split: if_splits)

lemma walk_files_accepted:
  "(root, name, f) \<in> set (walk_files g d) \<Longrightarrow> should_process_folder g root"
  by (auto simp: walk_files_iff)

lemma walk_files_ancestors:
  assumes "(root, name, f) \<in> set (walk_files g d)" and "prefix p root" and "p \<noteq> []"
  shows "should_process_folder g p"
proof -
  from assms(1) obtain fs where
    w: "(root, fs) \<in> set (os_walk (should_process_folder g) [] d)"
    by (auto simp: walk_files_iff)
  from assms(3) have "strict_prefix [] p" by (cases p) simp_all
  from os_walk_keep[OF w assms(2) this] show ?thesis .
qed

lemma pruned_subtree_not_visited:
  assumes "\<not> should_process_folder g parts" and "parts \<noteq> []"
    and "(root, name, f) \<in> set (walk_files g d)"
  shows "\<not> prefix parts root"
  using walk_files_ancestors[OF assms(3) _ assms(2)] assms(1) by blast

lemma os_walk_head: "(base, dir_files d) \<in> set (os_walk keep base d)"
  by (cases d) simp

lemma os_walk_reaches:
  "sub \<in> set (subdirs_at d ps) \<Longrightarrow> (\<forall>q. prefix q ps \<and> q \<noteq> [] \<longrightarrow> keep (base @ q)) \<Longrightarrow>
   (base @ ps, dir_files sub) \<in> set (os_walk keep base d)"
proof (induction ps arbitrary: d base)
  case Nil
  then show ?case by (simp add: os_walk_head)
next
  case (Cons n ns)
  obtain fs ds where d: "d = Dir fs ds" by (cases d)
  from Cons.prems(1) d obtain sub' where
    m: "(n, sub') \<in> set ds" and s: "sub \<in> set (subdirs_at sub' ns)"
    by (auto split: if_splits)
  from Cons.prems(2) have k: "keep (base @ [n])" by simp
  have "\<forall>q. prefix q ns \<and> q \<noteq> [] \<longrightarrow> keep ((base @ [n]) @ q)"
  proof (intro allI impI)
    fix q assume "prefix q ns \<and> q \<noteq> []"
    then have "prefix (n # q) (n # ns) \<and> n # q \<noteq> []" by simp
    with Cons.prems(2) have "keep (base @ (n # q))" by blast
    then show "keep ((base @ [n]) @ q)" by simp
  qed
  from Cons.IH[OF s this] have "(base @ n # ns, dir_files sub) \<in> set (os_walk keep (base @ [n]) sub')"
    by simp
  with m k d show ?case by auto
qed

lemma walk_files_reaches:
  assumes "\<forall>p. prefix p parts \<and> p \<noteq> [] \<longrightarrow> should_process_folder g p"
    and "should_process_folder g parts"
    and "sub \<in> set (subdirs_at d parts)" and "(name, f) \<in> set (dir_files sub)"
  shows "(parts, name, f) \<in> set (walk_files g d)"
proof -
  from os_walk_reaches[OF assms(3), of "should_process_folder g" "[]"] assms(1)
  have "(parts, dir_files sub) \<in> set (os_walk (should_process_folder g) [] d)" by simp
  with assms(2,4) show ?thesis by (auto simp: walk_files_iff)
qed

lemma visited_file_gives_record:
  assumes "src \<in> set (src_folders g)" and "fs src = Directory d"
    and "(parts, name, f) \<in> set (walk_files g d)" and "should_process_file g parts name f"
  shows "record_of g parts name f \<in> set (out (generate_map g fs))"
proof -
  from assms(2,3) have "(parts, name, f) \<in> set (visited_files g fs src)"
    by (simp add: visited_files_def)
  with assms(1) have "(parts, name, f) \<in> set (concat (map (visited_files g fs) (src_folders g)))"
    by auto
  with assms(4) show ?thesis
    by (force simp: generate_map_run_files out_run_files)
qed

lemma codemapper_folder_pruned:
  "''codemapper'' \<in> set parts \<Longrightarrow> \<not> should_process_folder g parts"
  by (simp add: should_process_folder_def Let_def)

lemma script_file_skipped:
  "\<not> should_process_file (init is_frozen config) dir_parts (script_name is_frozen) f"
  by (simp add: should_process_file_def Let_def init_def)





text \<open>
  Claim C10. A file whose name is a dot followed by characters that are not dots has the
  empty suffix; unless the empty string is a text extension, it is not a text file, and
  when the file decision accepts it the loop appends its path marker alone, without
  content. This holds under the default extensions, although \<open>.env\<close> is one of them.
\<close>

theorem dotfile_is_binary_marker:
  assumes "CHR ''.'' \<notin> set rest" and "[] \<notin> text_extensions g"
    and "should_process_file g dir_parts (CHR ''.'' # rest) f"
  shows "suffix_of (CHR ''.'' # rest) = [] \<and>
         \<not> is_text_file g (CHR ''.'' # rest) \<and>
         out (process_file g dir_parts (CHR ''.'' # rest) f s) =
           out s @ [\<lparr>relative_path = normalize_rel (dir_parts @ [CHR ''.'' # rest]),
                      kind = BinaryMarker\<rparr>]"
proof -
  have sfx: "suffix_of (CHR ''.'' # rest) = []"
    using assms(1) by (rule suffix_of_dotfile)
  then have nt: "\<not> is_text_file g (CHR ''.'' # rest)"
    using assms(2) by (simp add: is_text_file_def lower_def)
  from sfx nt out_process_file_binary[OF assms(3) nt] show ?thesis by simp
qed

theorem dotfile_is_binary_marker_witness:
  "''.env'' \<in> text_extensions default_generator \<and>
   ''.gitignore'' \<in> text_extensions default_generator \<and>
   suffix_of ''.env'' = [] \<and> \<not> is_text_file default_generator ''.env'' \<and>
   out (process_file default_generator [] ''.env'' env_file empty_state) =
     [\<lparr>relative_path = ''.env'', kind = BinaryMarker\<rparr>]"
proof -
  have h1: "CHR ''.'' \<notin> set ''env''" by simp
  have h2: "[] \<notin> text_extensions default_generator" by code_simp
  have h3: "should_process_file default_generator [] ''.env'' env_file" by code_simp
  have h4: "''.env'' \<in> text_extensions default_generator" by code_simp
  have h5: "''.gitignore'' \<in> text_extensions default_generator" by code_simp
  have h6: "normalize_rel ([] @ [''.env'']) = ''.env''" by code_simp
  have h7: "out empty_state = []" by (simp add: empty_state_def)
  show ?thesis
    using dotfile_is_binary_marker[OF h1 h2 h3, of empty_state] h4 h5 h6 h7 by simp
qed

text \<open>
  Claim C3. A folder whose relative path starts with an entry of \<open>except_folders\<close> and
  with an entry of \<open>folders\<close> is not processed: the exclusion is tested first.
\<close>

theorem exclude_wins_over_include:
  assumes "\<exists>f \<in> except_folders g. startswith (normalize_rel parts) (normalize_path f)"
    and "list_ex (\<lambda>f. startswith (normalize_rel parts) (normalize_path f)) (folders g)"
  shows "\<not> should_process_folder g parts"
  using assms(1) by (simp add: should_process_folder_def Let_def)

theorem exclude_wins_over_include_witness:
  "startswith (normalize_rel [''app'', ''tests'']) (normalize_path ''app/tests'') \<and>
   startswith (normalize_rel [''app'', ''tests'']) (normalize_path ''app'') \<and>
   should_process_folder both_lists_generator [''app''] \<and>
   \<not> should_process_folder both_lists_generator [''app'', ''tests'']"
proof -
  have e: "''app/tests'' \<in> except_folders both_lists_generator" by code_simp
  have h1: "startswith (normalize_rel [''app'', ''tests'']) (normalize_path ''app/tests'')"
    by code_simp
  have h2: "startswith (normalize_rel [''app'', ''tests'']) (normalize_path ''app'')"
    by code_simp
  have i: "list_ex (\<lambda>f. startswith (normalize_rel [''app'', ''tests'']) (normalize_path f))
             (folders both_lists_generator)"
    by code_simp
  have a: "should_process_folder both_lists_generator [''app'']" by code_simp
  from e h1 have
    "\<exists>f \<in> except_folders both_lists_generator.
       startswith (normalize_rel [''app'', ''tests'']) (normalize_path f)"
    by blast
  from exclude_wins_over_include[OF this i] h1 h2 a show ?thesis by simp
qed

text \<open>
  Claim C4. When \<open>files\<close> is not empty, a file whose name or relative path is in it,
  and that the two earlier rules do not exclude, is processed whatever \<open>stat\<close> reports
  as its size (\<open>sz\<close> is arbitrary, also a failing \<open>stat\<close>); when it is a text file, a
  record with content is appended for it.
\<close>

theorem explicit_file_bypasses_size:
  assumes "files g \<noteq> []"
    and "filename \<in> set (files g) \<or> normalize_rel (dir_parts @ [filename]) \<in> set (files g)"
    and "\<not> contains ''codemapper/'' (normalize_rel (dir_parts @ [filename]))"
    and "\<not> contains (''codemapper'' @ [CHR 0x5C]) (path_str (rel_path (dir_parts @ [filename])))"
    and "filename \<notin> except_files g"
    and "normalize_rel (dir_parts @ [filename]) \<notin> except_files g"
  shows "should_process_file g dir_parts filename (f\<lparr>st_size := sz\<rparr>) \<and>
         (is_text_file g filename \<longrightarrow>
            (\<exists>c. out (process_file g dir_parts filename (f\<lparr>st_size := sz\<rparr>) s) =
                   out s @ [\<lparr>relative_path = normalize_rel (dir_parts @ [filename]),
                              kind = TextContent c\<rparr>]))"
proof -
  have sp: "should_process_file g dir_parts filename (f\<lparr>st_size := sz\<rparr>)"
    using assms by (simp add: should_process_file_def Let_def normalize_rel_def)
  show ?thesis
    using sp out_process_file_text[OF sp] by blast
qed

theorem explicit_file_bypasses_size_witness:
  "11 * 1024 * 1024 > max_file_size only_big_generator \<and>
   \<not> should_process_file default_generator [''db''] ''big.sql'' big_file \<and>
   should_process_file only_big_generator [''db''] ''big.sql'' big_file \<and>
   out (process_file only_big_generator [''db''] ''big.sql'' big_file empty_state) =
     [\<lparr>relative_path = ''db/big.sql'',
       kind = TextContent (ustr_of ''select 1;'' @ [10])\<rparr>]"
proof -
  have h1: "files only_big_generator \<noteq> []" by code_simp
  have h2: "''big.sql'' \<in> set (files only_big_generator) \<or>
            normalize_rel ([''db''] @ [''big.sql'']) \<in> set (files only_big_generator)"
    by code_simp
  have h3: "\<not> contains ''codemapper/'' (normalize_rel ([''db''] @ [''big.sql'']))"
    by code_simp
  have h4: "\<not> contains (''codemapper'' @ [CHR 0x5C])
                (path_str (rel_path ([''db''] @ [''big.sql''])))"
    by code_simp
  have h5: "''big.sql'' \<notin> except_files only_big_generator" by code_simp
  have h6: "normalize_rel ([''db''] @ [''big.sql'']) \<notin> except_files only_big_generator"
    by code_simp
  have t: "is_text_file only_big_generator ''big.sql''" by code_simp
  have b: "big_file\<lparr>st_size := Some (11 * 1024 * 1024)\<rparr> = big_file"
    by (simp add: big_file_def)
  have m: "11 * 1024 * 1024 > max_file_size only_big_generator" by code_simp
  have d: "\<not> should_process_file default_generator [''db''] ''big.sql'' big_file" by code_simp
  have o: "out (process_file only_big_generator [''db''] ''big.sql'' big_file empty_state) =
     [\<lparr>relative_path = ''db/big.sql'',
       kind = TextContent (ustr_of ''select 1;'' @ [10])\<rparr>]"
    by code_simp
  from explicit_file_bypasses_size[OF h1 h2 h3 h4 h5 h6,
      where f = big_file and sz = "Some (11 * 1024 * 1024)" and s = empty_state] b t m d o
  show ?thesis by simp
qed

text \<open>
  Claim C6. \<open>read_file_safely\<close> returns in every case: the UTF-8 decoding when the
  file can be read and decodes, the Latin-1 decoding when it can be read and does not
  decode as UTF-8, and otherwise the error marker with the message of the error, with
  \<open>errors\<close> incremented by one and nothing else changed. No error of the read is left
  unhandled: the result is always a content and the statistics.
\<close>

theorem read_file_safely_cases:
  "read_file_safely f st =
     (case data f of
        Inl msg \<Rightarrow> (ustr_of (''[Error: '' @ msg @ '']''), st\<lparr>errors := errors st + 1\<rparr>)
      | Inr bs \<Rightarrow>
          (case utf8_decode (map of_char bs) of
             Some t \<Rightarrow> (universal_newlines t, st)
           | None \<Rightarrow> (universal_newlines (latin1_decode (map of_char bs)), st)))"
  by (simp add: read_file_safely_def read_utf8_def read_latin1_def error_marker_def
           split: sum.splits option.splits read_error.splits)

section \<open>Properties of a run\<close>

text \<open>
  Claim C1, as amended. On the example tree the default configuration gives the record
  of \<open>a.txt\<close> with the content \<open>hello\<close> and a newline, then the marker of
  \<open>b.png\<close>, nothing for \<open>node_modules/x.js\<close>, and the summary
  \<open>Text:1 Binary:1 Skipped:0\<close>.
\<close>

theorem example_run:
  "out (generate_map default_generator example_fs) =
     [\<lparr>relative_path = ''a.txt'', kind = TextContent (ustr_of ''hello'' @ [10])\<rparr>,
      \<lparr>relative_path = ''b.png'', kind = BinaryMarker\<rparr>] \<and>
   text_files (stats (generate_map default_generator example_fs)) = 1 \<and>
   binary_files (stats (generate_map default_generator example_fs)) = 1 \<and>
   skipped_files (stats (generate_map default_generator example_fs)) = 0 \<and>
   summary_line (stats (generate_map default_generator example_fs)) =
     ustr_of ''Text:1 Binary:1 Skipped:0'' @ [10]"
  by code_simp

text \<open>
  The claim C1 as stated fails: the file under the pruned folder is never seen, so it is
  not counted as skipped, and the summary does not say \<open>Skipped:1\<close>.
\<close>

theorem example_run_counterexample:
  "skipped_files (stats (generate_map default_generator example_fs)) \<noteq> 1 \<and>
   summary_line (stats (generate_map default_generator example_fs)) \<noteq>
     ustr_of ''Text:1 Binary:1 Skipped:1'' @ [10]"
  by code_simp

text \<open>
  Claim C2, as amended. Let a folder's relative path have a segment in the built-in
  skip list. Unless \<open>folders\<close> is non-empty and the path starts with one of its
  normalized entries, the folder is not processed and no file under it is visited. When
  \<open>folders\<close> is non-empty and the path starts with one of its entries, the folder is
  processed, provided that no segment is \<open>codemapper\<close>, that the path does not
  contain \<open>codemapper/\<close> and that no entry of \<open>except_folders\<close> is a prefix of it;
  when moreover every folder above it, below the source root, is processed, the walk
  enters the folder: every file of it is visited, and every one that the file decision
  accepts gives a record of the run. Conversely, a file under the folder is visited only
  if every folder on the way from the source root to it is processed.
\<close>

theorem builtin_skip_folder:
  assumes "\<exists>skip \<in> COMMON_SKIP_FOLDERS. skip \<in> set parts"
  shows
    "(\<not> (folders g \<noteq> [] \<and>
          list_ex (\<lambda>f. startswith (normalize_rel parts) (normalize_path f)) (folders g)) \<longrightarrow>
        \<not> should_process_folder g parts \<and>
        (\<forall>(root, name, f) \<in> set (walk_files g d). \<not> prefix parts root)) \<and>
     (folders g \<noteq> [] \<and>
      list_ex (\<lambda>f. startswith (normalize_rel parts) (normalize_path f)) (folders g) \<and>
      ''codemapper'' \<notin> set parts \<and> \<not> contains ''codemapper/'' (normalize_rel parts) \<and>
      \<not> (\<exists>f \<in> except_folders g. startswith (normalize_rel parts) (normalize_path f)) \<longrightarrow>
        should_process_folder g parts \<and>
        ((\<forall>p. strict_prefix p parts \<and> p \<noteq> [] \<longrightarrow> should_process_folder g p) \<longrightarrow>
           (\<forall>sub name f. sub \<in> set (subdirs_at d parts) \<and> (name, f) \<in> set (dir_files sub) \<longrightarrow>
              (parts, name, f) \<in> set (walk_files g d) \<and>
              (should_process_file g parts name f \<and> src \<in> set (src_folders g) \<and>
               fs src = Directory d \<longrightarrow>
                 record_of g parts name f \<in> set (out (generate_map g fs)))))) \<and>
     (\<forall>(root, name, f) \<in> set (walk_files g d).
        prefix parts root \<longrightarrow> (\<forall>p. prefix p root \<and> p \<noteq> [] \<longrightarrow> should_process_folder g p))"
proof (intro conjI impI allI)
  assume n: "\<not> (folders g \<noteq> [] \<and>
          list_ex (\<lambda>f. startswith (normalize_rel parts) (normalize_path f)) (folders g))"
  with assms show p: "\<not> should_process_folder g parts"
    by (auto simp: should_process_folder_def Let_def)
  from assms have "parts \<noteq> []" by auto
  with p show "\<forall>(root, name, f) \<in> set (walk_files g d). \<not> prefix parts root"
    using pruned_subtree_not_visited by blast
next
  assume c: "folders g \<noteq> [] \<and>
      list_ex (\<lambda>f. startswith (normalize_rel parts) (normalize_path f)) (folders g) \<and>
      ''codemapper'' \<notin> set parts \<and> \<not> contains ''codemapper/'' (normalize_rel parts) \<and>
      \<not> (\<exists>f \<in> except_folders g. startswith (normalize_rel parts) (normalize_path f))"
  with assms show "should_process_folder g parts"
    by (simp add: should_process_folder_def Let_def)
next
  fix sub name f
  assume c: "folders g \<noteq> [] \<and>
      list_ex (\<lambda>f. startswith (normalize_rel parts) (normalize_path f)) (folders g) \<and>
      ''codemapper'' \<notin> set parts \<and> \<not> contains ''codemapper/'' (normalize_rel parts) \<and>
      \<not> (\<exists>f \<in> except_folders g. startswith (normalize_rel parts) (normalize_path f))"
    and a: "\<forall>p. strict_prefix p parts \<and> p \<noteq> [] \<longrightarrow> should_process_folder g p"
    and s: "sub \<in> set (subdirs_at d parts) \<and> (name, f) \<in> set (dir_files sub)"
  from c assms have own: "should_process_folder g parts"
    by (simp add: should_process_folder_def Let_def)
  with a have all: "\<forall>p. prefix p parts \<and> p \<noteq> [] \<longrightarrow> should_process_folder g p"
    by (auto simp: strict_prefix_def)
  from s walk_files_reaches[OF all own]
  show w: "(parts, name, f) \<in> set (walk_files g d)" by blast
  assume "should_process_file g parts name f \<and> src \<in> set (src_folders g) \<and> fs src = Directory d"
  with w show "record_of g parts name f \<in> set (out (generate_map g fs))"
    using visited_file_gives_record by blast
next
  show "\<forall>(root, name, f) \<in> set (walk_files g d).
        prefix parts root \<longrightarrow> (\<forall>p. prefix p root \<and> p \<noteq> [] \<longrightarrow> should_process_folder g p)"
    using walk_files_ancestors by blast
qed

theorem builtin_skip_folder_witness:
  "\<not> should_process_folder default_generator [''node_modules''] \<and>
   ([''node_modules''], ''x.js'', x_js) \<notin> set (walk_files default_generator example_root) \<and>
   should_process_folder vendor_generator [''vendor'', ''lib''] \<and>
   should_process_folder vendor_generator [''vendor''] \<and>
   ([''vendor'', ''lib''], ''x.js'', x_js) \<in> set (walk_files vendor_generator vendor_root) \<and>
   \<lparr>relative_path = ''vendor/lib/x.js'', kind = TextContent (ustr_of ''1;'' @ [10])\<rparr>
     \<in> set (out (generate_map vendor_generator vendor_fs))"
proof -
  have a1: "\<exists>skip \<in> COMMON_SKIP_FOLDERS. skip \<in> set [''node_modules'']" by code_simp
  have b1: "\<not> (folders default_generator \<noteq> [] \<and>
          list_ex (\<lambda>f. startswith (normalize_rel [''node_modules'']) (normalize_path f))
            (folders default_generator))"
    by code_simp
  have a2: "\<exists>skip \<in> COMMON_SKIP_FOLDERS. skip \<in> set [''vendor'', ''lib'']" by code_simp
  have b2: "folders vendor_generator \<noteq> [] \<and>
      list_ex (\<lambda>f. startswith (normalize_rel [''vendor'', ''lib'']) (normalize_path f))
        (folders vendor_generator) \<and>
      ''codemapper'' \<notin> set [''vendor'', ''lib''] \<and>
      \<not> contains ''codemapper/'' (normalize_rel [''vendor'', ''lib'']) \<and>
      \<not> (\<exists>f \<in> except_folders vendor_generator.
            startswith (normalize_rel [''vendor'', ''lib'']) (normalize_path f))"
    by code_simp
  have v1: "should_process_folder vendor_generator [''vendor'']" by code_simp
  have anc: "\<forall>p. strict_prefix p [''vendor'', ''lib''] \<and> p \<noteq> [] \<longrightarrow>
               should_process_folder vendor_generator p"
  proof (intro allI impI)
    fix p :: "string list"
    assume "strict_prefix p [''vendor'', ''lib''] \<and> p \<noteq> []"
    then have "p = [''vendor'']"
      by (cases p) (auto simp: strict_prefix_def prefix_Cons)
    with v1 show "should_process_folder vendor_generator p" by simp
  qed
  have sub: "Dir [(''x.js'', x_js)] [] \<in> set (subdirs_at vendor_root [''vendor'', ''lib'']) \<and>
             (''x.js'', x_js) \<in> set (dir_files (Dir [(''x.js'', x_js)] []))"
    by code_simp
  have f: "should_process_file vendor_generator [''vendor'', ''lib''] ''x.js'' x_js \<and>
           ''.'' \<in> set (src_folders vendor_generator) \<and>
           vendor_fs ''.'' = Directory vendor_root"
    by code_simp
  have r: "record_of vendor_generator [''vendor'', ''lib''] ''x.js'' x_js =
           \<lparr>relative_path = ''vendor/lib/x.js'', kind = TextContent (ustr_of ''1;'' @ [10])\<rparr>"
    by code_simp
  from builtin_skip_folder[OF a1, of default_generator example_root] b1
  have c1: "\<not> should_process_folder default_generator [''node_modules''] \<and>
        (\<forall>(root, name, f) \<in> set (walk_files default_generator example_root).
           \<not> prefix [''node_modules''] root)"
    by blast
  then have c1': "([''node_modules''], ''x.js'', x_js)
     \<notin> set (walk_files default_generator example_root)"
    by auto
  from builtin_skip_folder[OF a2, of vendor_generator vendor_root "''.''" vendor_fs] b2 anc sub f
  have c2: "should_process_folder vendor_generator [''vendor'', ''lib''] \<and>
            ([''vendor'', ''lib''], ''x.js'', x_js) \<in> set (walk_files vendor_generator vendor_root) \<and>
            record_of vendor_generator [''vendor'', ''lib''] ''x.js'' x_js
              \<in> set (out (generate_map vendor_generator vendor_fs))"
    by blast
  from c1 c1' c2 v1 r show ?thesis by simp
qed

text \<open>
  The claim C2 as stated fails for \<open>vendor/lib\<close> when \<open>folders\<close> is
  \<open>vendor/lib\<close>: the path is covered by the entry, but \<open>vendor\<close> itself is not, so
  the walk never enters \<open>vendor\<close> and the file under \<open>vendor/lib\<close> gives no record.
\<close>

theorem nested_include_counterexample:
  "''vendor'' \<in> COMMON_SKIP_FOLDERS \<and> ''vendor'' \<in> set [''vendor'', ''lib''] \<and>
   folders vendor_lib_generator = [''vendor/lib''] \<and>
   startswith (normalize_rel [''vendor'', ''lib'']) (normalize_path ''vendor/lib'') \<and>
   os_walk (should_process_folder vendor_lib_generator) [] vendor_root = [([], [])] \<and>
   walk_files vendor_lib_generator vendor_root = [] \<and>
   out (generate_map vendor_lib_generator vendor_fs) = []"
  by code_simp

text \<open>
  Claim C5, as amended. For a file that the file decision accepts, that is a text file
  and that can be read, the content of the record is the text \<open>t\<close> that the read
  returns, followed by one newline when \<open>t\<close> does not end with one: \<open>t\<close> is the
  UTF-8 decoding of the bytes, or their Latin-1 decoding when they are not valid UTF-8,
  with a carriage return and line feed, or a lone carriage return, read as a newline.
  The content ends with a newline.
\<close>

theorem text_record_content:
  assumes "should_process_file g dir_parts filename f" and "is_text_file g filename"
    and "data f = Inr bs"
  shows "let t = universal_newlines
                   (case utf8_decode (map of_char bs) of
                      Some u \<Rightarrow> u
                    | None \<Rightarrow> latin1_decode (map of_char bs));
             c = (if endswith t [10] then t else t @ [10])
         in out (process_file g dir_parts filename f s) =
              out s @ [\<lparr>relative_path = normalize_rel (dir_parts @ [filename]),
                         kind = TextContent c\<rparr>] \<and>
            endswith c [10]"
  using out_process_file_text[OF assms(1,2), of s] assms(3) endswith_with_newline
  by (simp add: Let_def file_content_def decoded_text_def with_newline_def)

theorem text_record_content_witness:
  "out (process_file default_generator [] ''a.txt'' latin1_file empty_state) =
     [\<lparr>relative_path = ''a.txt'', kind = TextContent [233, 116, 10]\<rparr>] \<and>
   utf8_decode (map of_char [CHR 0xE9, CHR ''t'']) = None"
proof -
  have h1: "should_process_file default_generator [] ''a.txt'' latin1_file" by code_simp
  have h2: "is_text_file default_generator ''a.txt''" by code_simp
  have h3: "data latin1_file = Inr [CHR 0xE9, CHR ''t'']" by (simp add: latin1_file_def)
  have u: "utf8_decode (map of_char [CHR 0xE9, CHR ''t'']) = None" by code_simp
  have l: "universal_newlines (latin1_decode (map of_char [CHR 0xE9, CHR ''t''])) = [233, 116]"
    by code_simp
  have e: "\<not> endswith [233, 116 :: nat] [10]" by code_simp
  have n: "normalize_rel ([] @ [''a.txt'']) = ''a.txt''" by code_simp
  have o: "out empty_state = []" by (simp add: empty_state_def)
  from text_record_content[OF h1 h2 h3, of empty_state] u l e n o
  show ?thesis by (simp add: Let_def)
qed

text \<open>
  The claim C5 as stated fails for a file that ends with a blank line: the content of
  its record ends with two newlines.
\<close>

theorem blank_line_counterexample:
  "should_process_file default_generator [] ''a.txt'' blank_line_file \<and>
   is_text_file default_generator ''a.txt'' \<and>
   out (process_file default_generator [] ''a.txt'' blank_line_file empty_state) =
     [\<lparr>relative_path = ''a.txt'', kind = TextContent [120, 10, 10]\<rparr>] \<and>
   \<not> ends_with_exactly_one_newline [120, 10, 10]"
  by code_simp

text \<open>
  Claim C7. For every configuration, the script's name is in \<open>except_files\<close>; a file
  with that name is never accepted by the file decision and gives no record, whatever
  \<open>files\<close> is; a folder with a segment \<open>codemapper\<close> is never processed, whatever
  \<open>folders\<close> is; and the records of a run come only from visited files that do not
  have the script's name and are not under a folder \<open>codemapper\<close>.
\<close>

theorem own_names_never_emitted:
  "script_name is_frozen \<in> except_files (init is_frozen config) \<and>
   \<not> should_process_file (init is_frozen config) dir_parts (script_name is_frozen) f \<and>
   out (process_file (init is_frozen config) dir_parts (script_name is_frozen) f s) = out s \<and>
   (''codemapper'' \<in> set parts \<longrightarrow> \<not> should_process_folder (init is_frozen config) parts) \<and>
   out (generate_map (init is_frozen config) fs) =
     map (\<lambda>(root, name, f). record_of (init is_frozen config) root name f)
       (filter (\<lambda>(root, name, f).
                  should_process_file (init is_frozen config) root name f \<and>
                  name \<noteq> script_name is_frozen \<and> ''codemapper'' \<notin> set root)
          (concat (map (visited_files (init is_frozen config) fs)
                     (src_folders (init is_frozen config)))))"
proof -
  let ?g = "init is_frozen config"
  let ?all = "concat (map (visited_files ?g fs) (src_folders ?g))"
  have a: "script_name is_frozen \<in> except_files ?g"
    by (simp add: init_def)
  have b: "\<not> should_process_file ?g dir_parts (script_name is_frozen) f"
    by (rule script_file_skipped)
  have c: "out (process_file ?g dir_parts (script_name is_frozen) f s) = out s"
    using b by (rule out_process_file_skip)
  have d: "''codemapper'' \<in> set parts \<longrightarrow> \<not> should_process_folder ?g parts"
    by (simp add: codemapper_folder_pruned)
  have mem: "''codemapper'' \<notin> set root" if "(root, name, f') \<in> set ?all" for root name f'
  proof -
    from that obtain src where "(root, name, f') \<in> set (visited_files ?g fs src)" by auto
    then obtain dd where "(root, name, f') \<in> set (walk_files ?g dd)"
      by (auto simp: visited_files_def split: source.splits)
    then have "should_process_folder ?g root" by (rule walk_files_accepted)
    then show ?thesis using codemapper_folder_pruned by blast
  qed
  have "filter (\<lambda>(root, name, f). should_process_file ?g root name f) ?all =
        filter (\<lambda>(root, name, f). should_process_file ?g root name f \<and>
                  name \<noteq> script_name is_frozen \<and> ''codemapper'' \<notin> set root) ?all"
    by (rule filter_cong[OF refl]) (use mem script_file_skipped in auto)
  then have e: "out (generate_map ?g fs) =
     map (\<lambda>(root, name, f). record_of ?g root name f)
       (filter (\<lambda>(root, name, f). should_process_file ?g root name f \<and>
                  name \<noteq> script_name is_frozen \<and> ''codemapper'' \<notin> set root) ?all)"
    by (simp add: generate_map_run_files out_run_files)
  from a b c d e show ?thesis by blast
qed

theorem own_names_never_emitted_witness:
  "''codemapper.py'' \<in> set (files (init False own_names_config)) \<and>
   ''codemapper'' \<in> set (folders (init False own_names_config)) \<and>
   \<not> should_process_folder (init False own_names_config) [''codemapper''] \<and>
   \<not> should_process_file (init False own_names_config) [''src''] ''codemapper.py''
        \<lparr> st_size = Some 2, data = Inr ''3;'' \<rparr> \<and>
   out (generate_map (init False own_names_config) own_names_fs) =
     [\<lparr>relative_path = ''src/main.py'', kind = TextContent (ustr_of ''2;'' @ [10])\<rparr>]"
proof -
  have s: "script_name False = ''codemapper.py''" by (simp add: script_name_def)
  have m: "''codemapper'' \<in> set [''codemapper'']" by simp
  have l: "''codemapper.py'' \<in> set (files (init False own_names_config)) \<and>
           ''codemapper'' \<in> set (folders (init False own_names_config))"
    by code_simp
  have o: "out (generate_map (init False own_names_config) own_names_fs) =
     [\<lparr>relative_path = ''src/main.py'', kind = TextContent (ustr_of ''2;'' @ [10])\<rparr>]"
    by code_simp
  from own_names_never_emitted[of False own_names_config "[''src'']"
      "\<lparr> st_size = Some 2, data = Inr ''3;'' \<rparr>" empty_state "[''codemapper'']" own_names_fs]
    s m l o
  show ?thesis by simp
qed



section \<open>Determinism\<close>

lemma filter_same_key:
  "distinct (map f zs) \<Longrightarrow> k \<in> set zs \<Longrightarrow> filter (\<lambda>x. f k = f x) zs = [k]"
proof (induction zs)
  case Nil
  then show ?case by simp
next
  case (Cons z zs)
  show ?case
  proof (cases "k = z")
    case True
    with Cons.prems have "\<forall>x \<in> set zs. f z \<noteq> f x" by auto
    then have "filter (\<lambda>x. f z = f x) zs = []" by (simp add: filter_empty_conv)
    with True show ?thesis by simp
  next
    case False
    with Cons.prems have k: "k \<in> set zs" by auto
    then have "f k \<in> f ` set zs" by simp
    with Cons.prems have "f k \<noteq> f z" by auto
    with k Cons.IH Cons.prems show ?thesis by simp
  qed
qed

lemma sort_key_listing:
  fixes xs ys :: "(string \<times> file_entry) list"
  assumes "mset ys = mset xs" and "distinct (map fst xs)"
  shows "sort_key fst ys = sort_key fst xs"
proof -
  have d: "distinct (map fst ys)"
    using assms by (metis mset_eq_imp_distinct_iff mset_map)
  have s: "set ys = set xs" using assms(1) by (rule mset_eq_setD)
  have dd: "distinct (map fst (sort_key fst ys))"
    using d by (metis distinct_map distinct_sort set_sort) 
  show ?thesis
  proof (rule properties_for_sort_key[symmetric])
    show "mset (sort_key fst ys) = mset xs" using assms(1) by simp
    show "sorted (map fst (sort_key fst ys))" by simp
    fix k assume k: "k \<in> set (sort_key fst ys)"
    then have "k \<in> set xs" using s by simp
    from filter_same_key[OF dd k] filter_same_key[OF assms(2) this]
    show "filter (\<lambda>x. fst k = fst x) (sort_key fst ys) = filter (\<lambda>x. fst k = fst x) xs"
      by simp
  qed
qed


lemma os_walk_relist:
  "os_walk keep root (relist h d) = map (\<lambda>(r, fs). (r, h fs)) (os_walk keep root d)"
proof (induction keep root d rule: os_walk.induct)
  case (1 keep root fs ds)
  let ?kept = "filter (\<lambda>(n, sub). keep (root @ [n])) ds"
  let ?F = "\<lambda>(r, fs). (r, h fs)"
  have f: "filter (\<lambda>(n, sub). keep (root @ [n])) (map (\<lambda>(n, sub). (n, relist h sub)) ds) =
           map (\<lambda>(n, sub). (n, relist h sub)) ?kept"
    by (simp add: filter_map comp_def split_def)
  have m: "map (\<lambda>(n, sub). os_walk keep (root @ [n]) sub) (map (\<lambda>(n, sub). (n, relist h sub)) ?kept) =
        map (\<lambda>x. map ?F (os_walk keep (root @ [fst x]) (snd x))) ?kept"
    unfolding map_map
  proof (rule map_cong[OF refl])
    fix x assume x: "x \<in> set ?kept"
    from "1.IH"[of x "fst x" "snd x"] x
    show "((\<lambda>(n, sub). os_walk keep (root @ [n]) sub) \<circ> (\<lambda>(n, sub). (n, relist h sub))) x =
          map ?F (os_walk keep (root @ [fst x]) (snd x))"
      by (simp add: split_def)
  qed
  have c: "concat (map (\<lambda>x. map ?F (os_walk keep (root @ [fst x]) (snd x))) ?kept) =
           map ?F (concat (map (\<lambda>(n, sub). os_walk keep (root @ [n]) sub) ?kept))"
    by (simp add: map_concat comp_def split_def)
  show ?case
    by (simp only: relist.simps os_walk.simps f m c list.map prod.case)
qed

lemma os_walk_distinct:
  "distinct_names d \<Longrightarrow> (r, fs) \<in> set (os_walk keep root d) \<Longrightarrow> distinct (map fst fs)"
proof (induction keep root d arbitrary: r fs rule: os_walk.induct)
  case (1 keep root fs0 ds)
  from "1.prems"(2) consider "fs = fs0"
    | n sub where "(n, sub) \<in> set ds" "keep (root @ [n])"
        "(r, fs) \<in> set (os_walk keep (root @ [n]) sub)"
    by auto
  then show ?case
  proof cases
    case 1
    with "1.prems"(1) show ?thesis by simp
  next
    case 2
    from "1.prems"(1) 2(1) have "distinct_names sub"
      by (auto simp: list_all_iff)
    with "1.IH"[of "(n, sub)" n sub r fs] 2 show ?thesis by simp
  qed
qed

lemma walk_files_relist:
  assumes "\<forall>xs. mset (h xs) = mset xs" and "distinct_names d"
  shows "walk_files g (relist h d) = walk_files g d"
proof -
  let ?W = "os_walk (should_process_folder g) [] d"
  let ?B = "\<lambda>(r, fs). if \<not> should_process_folder g r then []
                       else map (\<lambda>(name, f). (r, name, f)) (sort_key fst fs)"
  have "map ?B (map (\<lambda>(r, fs). (r, h fs)) ?W) = map ?B ?W"
    unfolding map_map
  proof (rule map_cong[OF refl])
    fix x assume x: "x \<in> set ?W"
    then have "(fst x, snd x) \<in> set ?W" by simp
    from os_walk_distinct[OF assms(2) this]
    have dn: "distinct (map fst (snd x))" .
    from assms(1) have "mset (h (snd x)) = mset (snd x)" by simp
    then have "sort_key fst (h (snd x)) = sort_key fst (snd x)"
      using dn by (rule sort_key_listing)
    then show "(?B \<circ> (\<lambda>(r, fs). (r, h fs))) x = ?B x"
      by (simp add: split_def)
  qed
  then show ?thesis
    by (simp only: walk_files_def os_walk_relist)
qed

lemma visited_files_relist:
  assumes "\<forall>xs. mset (h xs) = mset xs" and "\<forall>src d. fs src = Directory d \<longrightarrow> distinct_names d"
  shows "visited_files g (relist_fs h fs) src = visited_files g fs src"
  using assms walk_files_relist[of h _ g]
  by (auto simp: visited_files_def relist_fs_def split: source.splits)

text \<open>
  Claim C8. The records, the statistics and the text written after the first line are
  the same for two runs with the same generator on the same tree, whatever the times of
  the two runs are and in whatever order the listings give the files of each directory
  (the loop sorts them by name). The subdirectories are entered in the order of the
  listing, which is part of the tree.
\<close>

theorem output_is_deterministic:
  assumes "\<forall>xs. mset (h xs) = mset xs"
    and "\<forall>src d. fs src = Directory d \<longrightarrow> distinct_names d"
  shows "generate_map g (relist_fs h fs) = generate_map g fs \<and>
         written_output now1 g (relist_fs h fs) = header_line now1 @ render_body (generate_map g fs) \<and>
         written_output now2 g fs = header_line now2 @ render_body (generate_map g fs)"
proof -
  have "map (visited_files g (relist_fs h fs)) (src_folders g) =
        map (visited_files g fs) (src_folders g)"
    by (rule map_cong[OF refl]) (rule visited_files_relist[OF assms])
  then have "generate_map g (relist_fs h fs) = generate_map g fs"
    by (simp only: generate_map_run_files)
  then show ?thesis by (simp only: written_output_def simp_thms)
qed

theorem output_is_deterministic_witness:
  "relist rev example_root \<noteq> example_root \<and>
   generate_map default_generator (relist_fs rev example_fs) =
     generate_map default_generator example_fs \<and>
   written_output ''2026-01-01 10:00:00'' default_generator (relist_fs rev example_fs) =
     header_line ''2026-01-01 10:00:00'' @ render_body (generate_map default_generator example_fs) \<and>
   written_output ''2026-01-02 11:30:00'' default_generator example_fs =
     header_line ''2026-01-02 11:30:00'' @ render_body (generate_map default_generator example_fs)"
proof -
  have h1: "\<forall>xs :: (string \<times> file_entry) list. mset (rev xs) = mset xs" by simp
  have d: "distinct_names example_root" by code_simp
  have h2: "\<forall>src d. example_fs src = Directory d \<longrightarrow> distinct_names d"
    using d by (simp add: example_fs_def)
  have n: "relist rev example_root \<noteq> example_root" by code_simp
  from output_is_deterministic[OF h1 h2, of default_generator
      "''2026-01-01 10:00:00''" "''2026-01-02 11:30:00''"] n
  show ?thesis by simp
qed

end
